theory Spec2Isabelle
  imports Complex_Main "HOL-Library.Word"
begin

section \<open>The mirror server of the certificate transparency log (ct-mirror.cc)\<close>

text \<open>
  The theory embeds \<^verbatim>\<open>src/cpp/server/ct-mirror.cc\<close>: the flag validators, the start-up
  sequence of \<^verbatim>\<open>main\<close>, the callback \<^verbatim>\<open>new_sth\<close> that files verified tree heads into
  the pending queue, and the loop \<^verbatim>\<open>STHUpdater\<close> that hands queued heads to the cluster
  state controller once the local database has caught up.
\<close>

subsection \<open>Data\<close>

type_synonym int32 = "32 word"
type_synonym int64 = "64 word"
type_synonym uint64 = "64 word"

text \<open>
  \<^verbatim>\<open>ct::SignedTreeHead\<close> is a class generated from the protocol description; its
  declaration is not in this file, which reads two of its fields. \<^verbatim>\<open>tree_size()\<close> is
  used as the key of a \<^verbatim>\<open>map<int64_t, ...>\<close> and compared with the \<^verbatim>\<open>int64_t\<close> size of the
  database, so it is read as a signed 64-bit value, through \<open>sint\<close>; for sizes below
  \<open>2 ^ 63\<close> the signed and the unsigned reading are the same number. \<^verbatim>\<open>timestamp()\<close>
  is an unsigned 64-bit count of milliseconds, and \<open><\<close> on words is the unsigned order.
\<close>

record SignedTreeHead =
  tree_size :: int64
  timestamp :: uint64
  sha256_root_hash :: "8 word list"
  signature :: "8 word list"

text \<open>
  \<^verbatim>\<open>std::map<int64_t, ct::SignedTreeHead>\<close>: a list of key/value pairs kept in strictly
  ascending order of the signed key. \<^verbatim>\<open>begin()\<close> is the head of the list, \<^verbatim>\<open>empty()\<close>
  is \<open>[]\<close>, \<^verbatim>\<open>erase(begin())\<close> is the tail.
\<close>

type_synonym sth_map = "(int64 \<times> SignedTreeHead) list"

text \<open>\<^verbatim>\<open>map::find\<close>: the value stored under the key, \<open>None\<close> for \<^verbatim>\<open>end()\<close>.\<close>

fun map_find :: "int64 \<Rightarrow> sth_map \<Rightarrow> SignedTreeHead option" where
  "map_find k [] = None"
| "map_find k ((k', v) # m) = (if k = k' then Some v else map_find k m)"

text \<open>
  \<^verbatim>\<open>map::insert(value_type)\<close>: the pair goes to its place in the key order when the key
  is new; when the key is already there the map stays as it is (the stored value is
  kept, the argument is dropped).
\<close>

fun map_insert :: "int64 \<times> SignedTreeHead \<Rightarrow> sth_map \<Rightarrow> sth_map" where
  "map_insert (k, v) [] = [(k, v)]"
| "map_insert (k, v) ((k', v') # m) =
     (if sint k < sint k' then (k, v) # (k', v') # m
      else if k = k' then (k', v') # m
      else (k', v') # map_insert (k, v) m)"

definition map_ordered :: "sth_map \<Rightarrow> bool" where
  "map_ordered m = sorted_wrt (\<lambda>a b. sint (fst a) < sint (fst b)) m"

subsection \<open>The callback \<^verbatim>\<open>new_sth\<close> (lines 348-359)\<close>

text \<open>
  Under the queue mutex: look the head's size up; return at once when an entry is there
  whose timestamp is above the new head's (after a warning in the log); otherwise call
  \<^verbatim>\<open>queue.insert(make_pair(sth.tree_size(), sth))\<close>.
\<close>

definition new_sth :: "SignedTreeHead \<Rightarrow> sth_map \<Rightarrow> sth_map" where
  "new_sth sth queue =
     (let it = map_find (tree_size sth) queue in
      if it \<noteq> None \<and> timestamp sth < timestamp (the it) then queue
      else map_insert (tree_size sth, sth) queue)"

subsection \<open>The loop \<^verbatim>\<open>STHUpdater\<close> (lines 217-249)\<close>

text \<open>What the loop does to the world outside the queue, in the order it does it.\<close>

datatype status = OK | CANCELLED

datatype action =
    TaskReturn status
  | GaugeSet int64
  | NewTreeHead SignedTreeHead
  | QueueErase int64 SignedTreeHead
  | SleepFor int32

text \<open>
  The inner loop (lines 237-243), run under the queue mutex: while the queue is not empty
  and the size of its first head is at most \<^verbatim>\<open>local_size\<close>, pass that head to
  \<^verbatim>\<open>ClusterStateController::NewTreeHead\<close> and erase it. The result is the calls made and
  the queue that is left.
\<close>

fun drain :: "int64 \<Rightarrow> sth_map \<Rightarrow> action list \<times> sth_map" where
  "drain local_size [] = ([], [])"
| "drain local_size ((k, h) # queue) =
     (if sint (tree_size h) \<le> sint local_size
      then (let (acts, rest) = drain local_size queue
            in (NewTreeHead h # QueueErase k h # acts, rest))
      else ([], (k, h) # queue))"

text \<open>
  One pass through the body of \<^verbatim>\<open>while (true)\<close>. \<open>cancel\<close> is what
  \<^verbatim>\<open>task->CancelRequested()\<close> answers and \<open>local_size\<close> what \<^verbatim>\<open>db->TreeSize()\<close> answers
  in this pass; \<open>freq\<close> is the flag \<^verbatim>\<open>local_sth_update_frequency_seconds\<close>. The branch of
  the cancellation check calls \<^verbatim>\<open>task->Return(util::Status::CANCELLED)\<close> and has no
  \<^verbatim>\<open>return\<close> or \<^verbatim>\<open>break\<close>: control goes on to the next statement of the body.
\<close>

definition STHUpdater_body ::
  "int32 \<Rightarrow> bool \<Rightarrow> int64 \<Rightarrow> sth_map \<Rightarrow> action list \<times> sth_map" where
  "STHUpdater_body freq cancel local_size queue =
     (let (acts, rest) = drain local_size queue in
      ((if cancel then [TaskReturn CANCELLED] else [])
         @ [GaugeSet local_size] @ acts @ [SleepFor freq], rest))"

text \<open>
  The loop has no exit, so a run of it is given by what it observes pass after pass: for
  every pass the answer of the cancellation check and of the database. The passes
  supplied are the fuel; the function returns the calls made so far and the queue, and
  the loop is still running when they are used up.
\<close>

fun STHUpdater ::
  "int32 \<Rightarrow> (bool \<times> int64) list \<Rightarrow> sth_map \<Rightarrow> action list \<times> sth_map" where
  "STHUpdater freq [] queue = ([], queue)"
| "STHUpdater freq ((cancel, local_size) # passes) queue =
     (let (acts, q1) = STHUpdater_body freq cancel local_size queue;
          (acts', q2) = STHUpdater freq passes q1
      in (acts @ acts', q2))"

text \<open>The heads passed to the cluster state controller, in the order of the calls.\<close>

fun promoted :: "action list \<Rightarrow> SignedTreeHead list" where
  "promoted [] = []"
| "promoted (NewTreeHead h # acts) = h # promoted acts"
| "promoted (a # acts) = promoted acts"

text \<open>The entries erased from the queue, in the order of the calls.\<close>

fun erased :: "action list \<Rightarrow> sth_map" where
  "erased [] = []"
| "erased (QueueErase k h # acts) = (k, h) # erased acts"
| "erased (a # acts) = erased acts"

subsection \<open>The two threads on the shared queue\<close>

text \<open>
  \<^verbatim>\<open>main\<close> creates the queue empty and shares it between the fetcher, which calls
  \<^verbatim>\<open>new_sth\<close> for every verified head, and the thread running \<^verbatim>\<open>STHUpdater\<close>. Both take
  \<^verbatim>\<open>queue_mutex\<close> for the whole of their access, so a run of the node is a sequence of
  deliveries and passes of the loop, each atomic on the queue.
\<close>

datatype event = Deliver SignedTreeHead | Pass bool int64

fun node_run :: "int32 \<Rightarrow> event list \<Rightarrow> sth_map \<Rightarrow> action list \<times> sth_map" where
  "node_run freq [] queue = ([], queue)"
| "node_run freq (Deliver sth # es) queue = node_run freq es (new_sth sth queue)"
| "node_run freq (Pass cancel local_size # es) queue =
     (let (acts, q1) = STHUpdater_body freq cancel local_size queue;
          (acts', q2) = node_run freq es q1
      in (acts @ acts', q2))"

text \<open>
  A delivery is late when its head is smaller than a head that the loop has already
  promoted. \<open>timely freq es queue ps\<close> holds when no delivery of the run \<open>es\<close> from
  \<open>queue\<close> is late, \<open>ps\<close> being the heads promoted before the run.
\<close>

fun timely :: "int32 \<Rightarrow> event list \<Rightarrow> sth_map \<Rightarrow> SignedTreeHead list \<Rightarrow> bool" where
  "timely freq [] queue ps = True"
| "timely freq (Deliver sth # es) queue ps =
     (list_all (\<lambda>p. sint (tree_size p) \<le> sint (tree_size sth)) ps
      \<and> timely freq es (new_sth sth queue) ps)"
| "timely freq (Pass cancel local_size # es) queue ps =
     (let (acts, q1) = STHUpdater_body freq cancel local_size queue
      in timely freq es q1 (ps @ promoted acts))"

subsection \<open>Flags and their validators (lines 52-213)\<close>

record flags =
  FLAGS_server :: string
  FLAGS_port :: int32
  FLAGS_cert_dir :: string
  FLAGS_tree_dir :: string
  FLAGS_meta_dir :: string
  FLAGS_sqlite_db :: string
  FLAGS_leveldb_db :: string
  FLAGS_cert_storage_depth :: int32
  FLAGS_tree_storage_depth :: int32
  FLAGS_log_stats_frequency_seconds :: int32
  FLAGS_target_poll_frequency_seconds :: int32
  FLAGS_etcd_host :: string
  FLAGS_etcd_port :: int32
  FLAGS_etcd_root :: string
  FLAGS_num_http_server_threads :: int32
  FLAGS_target_log_uri :: string
  FLAGS_target_public_key :: string
  FLAGS_local_sth_update_frequency_seconds :: int32

text \<open>
  What start-up asks of the machine: \<^verbatim>\<open>access(path, R_OK) == 0\<close>,
  \<^verbatim>\<open>access(path, W_OK) == 0\<close>, and whether \<^verbatim>\<open>ReadPublicKey(path)\<close> is \<^verbatim>\<open>ok()\<close>.
\<close>

record env =
  access_R_OK :: "string \<Rightarrow> bool"
  access_W_OK :: "string \<Rightarrow> bool"
  ReadPublicKey_ok :: "string \<Rightarrow> bool"

text \<open>The validators; \<open>flagname\<close> only goes into the message they print.\<close>

definition ValidatePort :: "string \<Rightarrow> int32 \<Rightarrow> bool" where
  "ValidatePort flagname port = (if sint port \<le> 0 \<or> sint port > 65535 then False else True)"

definition ValidateRead :: "env \<Rightarrow> string \<Rightarrow> string \<Rightarrow> bool" where
  "ValidateRead e flagname path = (if \<not> access_R_OK e path then False else True)"

definition ValidateWrite :: "env \<Rightarrow> string \<Rightarrow> string \<Rightarrow> bool" where
  "ValidateWrite e flagname path =
     (if path \<noteq> [] \<and> \<not> access_W_OK e path then False else True)"

definition ValidateIsNonNegative :: "string \<Rightarrow> int32 \<Rightarrow> bool" where
  "ValidateIsNonNegative flagname v = (if sint v < 0 then False else True)"

definition ValidateIsPositive :: "string \<Rightarrow> int32 \<Rightarrow> bool" where
  "ValidateIsPositive flagname v = (if sint v \<le> 0 then False else True)"

text \<open>
  The validators are registered with \<^verbatim>\<open>RegisterFlagValidator\<close> (lines 158-213);
  \<^verbatim>\<open>google::ParseCommandLineFlags\<close> runs every registered validator on the value of its
  flag and ends the process with status 1 when one of them returns false. The function
  is true when parsing lets the process go on.
\<close>

definition ParseCommandLineFlags :: "env \<Rightarrow> flags \<Rightarrow> bool" where
  "ParseCommandLineFlags e f =
     (ValidatePort ''port'' (FLAGS_port f)
      \<and> ValidateRead e ''target_public_key'' (FLAGS_target_public_key f)
      \<and> ValidateWrite e ''cert_dir'' (FLAGS_cert_dir f)
      \<and> ValidateWrite e ''tree_dir'' (FLAGS_tree_dir f)
      \<and> ValidateIsNonNegative ''cert_storage_depth'' (FLAGS_cert_storage_depth f)
      \<and> ValidateIsNonNegative ''tree_storage_depth'' (FLAGS_tree_storage_depth f)
      \<and> ValidateIsPositive ''log_stats_frequency_seconds'' (FLAGS_log_stats_frequency_seconds f)
      \<and> ValidateIsPositive ''target_poll_frequency_seconds''
            (FLAGS_target_poll_frequency_seconds f))"

subsection \<open>Start-up: \<^verbatim>\<open>main\<close> (lines 252-379)\<close>

datatype db_backend =
    SQLiteDB string
  | LevelDB string
  | FileDB "string \<times> int32" "string \<times> int32" "string \<times> int32"

datatype etcd_client = FakeEtcdClient | EtcdClient string int32

record ClusterConfig =
  minimum_serving_nodes :: int32
  minimum_serving_fraction :: real

record server_options =
  server :: string
  port :: int32
  etcd_root :: string
  num_http_server_threads :: int32

text \<open>
  The calls \<^verbatim>\<open>main\<close> makes on its collaborators (database, cluster store, server,
  election, fetcher), in program order. Signal dispositions, logging, the static
  initialisation of the libraries and the local helper objects (event base, URL fetcher,
  thread pool, mutex) are not recorded.
\<close>

datatype startup_action =
    NewDatabase db_backend
  | NewEtcdClient etcd_client
  | NewServer server_options
  | ServerInitialise bool
  | SetClusterConfig ClusterConfig
  | StartElection
  | WaitToBecomeMaster
  | ReadPublicKey string
  | NewRemotePeer string
  | NewContinuousFetcher
  | AddPeer string
  | StartSTHUpdater
  | ServerRun

text \<open>
  How start-up ends: \<^verbatim>\<open>exit(n)\<close>, a failed \<^verbatim>\<open>CHECK\<close> (which aborts the process), or the
  server serving requests in \<^verbatim>\<open>server.Run()\<close>.
\<close>

datatype outcome = Exited int | Aborted | Serving

text \<open>The number the test of lines 264-266 compares with 1.\<close>

definition selected_backends :: "flags \<Rightarrow> nat" where
  "selected_backends f =
     of_bool (FLAGS_sqlite_db f \<noteq> []) + of_bool (FLAGS_leveldb_db f \<noteq> [])
       + of_bool (FLAGS_cert_dir f \<noteq> [] \<or> FLAGS_tree_dir f \<noteq> [])"

text \<open>Lines 276-287: the database that is constructed.\<close>

definition open_database :: "flags \<Rightarrow> db_backend" where
  "open_database f =
     (if FLAGS_sqlite_db f \<noteq> [] then SQLiteDB (FLAGS_sqlite_db f)
      else if FLAGS_leveldb_db f \<noteq> [] then LevelDB (FLAGS_leveldb_db f)
      else FileDB (FLAGS_cert_dir f, FLAGS_cert_storage_depth f)
                  (FLAGS_tree_dir f, FLAGS_tree_storage_depth f)
                  (FLAGS_meta_dir f, 0))"

text \<open>Lines 298-302.\<close>

definition options :: "flags \<Rightarrow> server_options" where
  "options f = \<lparr>server = FLAGS_server f, port = FLAGS_port f,
                 etcd_root = FLAGS_etcd_root f,
                 num_http_server_threads = FLAGS_num_http_server_threads f\<rparr>"

text \<open>Lines 289-306: database, cluster store client and server, in this order.\<close>

definition construct_server :: "flags \<Rightarrow> startup_action list" where
  "construct_server f =
     [NewDatabase (open_database f),
      NewEtcdClient (if FLAGS_etcd_host f = [] then FakeEtcdClient
                     else EtcdClient (FLAGS_etcd_host f) (FLAGS_etcd_port f)),
      NewServer (options f),
      ServerInitialise True]"

text \<open>Lines 319-330: the branch of \<^verbatim>\<open>stand_alone_mode\<close>.\<close>

definition stand_alone_setup :: "startup_action list" where
  "stand_alone_setup =
     [SetClusterConfig \<lparr>minimum_serving_nodes = 1, minimum_serving_fraction = 1\<rparr>,
      StartElection,
      WaitToBecomeMaster]"

text \<open>Lines 361-379: the fetcher with its peer, the updater thread, the server.\<close>

definition start_pipeline :: "flags \<Rightarrow> startup_action list" where
  "start_pipeline f =
     [NewRemotePeer (FLAGS_target_log_uri f), NewContinuousFetcher, AddPeer ''target'',
      StartSTHUpdater, ServerRun]"

text \<open>
  \<^verbatim>\<open>main\<close> from its first line to the call of \<^verbatim>\<open>server.Run()\<close>: how start-up ends,
  and the calls made until then.
\<close>

definition main :: "env \<Rightarrow> flags \<Rightarrow> outcome \<times> startup_action list" where
  "main e f =
     (if \<not> ParseCommandLineFlags e f then (Exited 1, [])
      else if selected_backends f \<noteq> 1 then (Exited 1, [])
      else if FLAGS_sqlite_db f = [] \<and> FLAGS_leveldb_db f = []
              \<and> FLAGS_cert_dir f = FLAGS_tree_dir f then (Aborted, [])
      else
        (let stand_alone_mode = (FLAGS_etcd_host f = []);
             acts = construct_server f @ (if stand_alone_mode then stand_alone_setup else [])
         in if \<not> stand_alone_mode \<and> FLAGS_server f = [] then (Aborted, acts)
            else if FLAGS_target_public_key f = [] then (Aborted, acts)
            else if FLAGS_target_log_uri f = [] then (Aborted, acts)
            else if \<not> ReadPublicKey_ok e (FLAGS_target_public_key f)
              then (Aborted, acts @ [ReadPublicKey (FLAGS_target_public_key f)])
            else (Serving, acts @ [ReadPublicKey (FLAGS_target_public_key f)]
                                @ start_pipeline f)))"

text \<open>The flags with the defaults of their \<^verbatim>\<open>DEFINE_\<close> lines (lines 52-87).\<close>

definition default_flags :: flags where
  "default_flags =
     \<lparr>FLAGS_server = ''localhost'', FLAGS_port = 9999,
      FLAGS_cert_dir = [], FLAGS_tree_dir = [], FLAGS_meta_dir = [],
      FLAGS_sqlite_db = [], FLAGS_leveldb_db = [],
      FLAGS_cert_storage_depth = 0, FLAGS_tree_storage_depth = 0,
      FLAGS_log_stats_frequency_seconds = 3600,
      FLAGS_target_poll_frequency_seconds = 10,
      FLAGS_etcd_host = [], FLAGS_etcd_port = 0, FLAGS_etcd_root = ''/root'',
      FLAGS_num_http_server_threads = 16,
      FLAGS_target_log_uri = ''http://ct.googleapis.com/pilot'',
      FLAGS_target_public_key = [],
      FLAGS_local_sth_update_frequency_seconds = 30\<rparr>"

subsection \<open>Notions used by the properties\<close>

text \<open>Every entry of the queue is filed under the size of its head.\<close>

definition keyed :: "sth_map \<Rightarrow> bool" where
  "keyed m = list_all (\<lambda>(k, h). k = tree_size h) m"

text \<open>What \<^verbatim>\<open>std::map\<close> and \<^verbatim>\<open>new_sth\<close> together maintain.\<close>

definition queue_inv :: "sth_map \<Rightarrow> bool" where
  "queue_inv q = (map_ordered q \<and> keyed q)"

text \<open>The test of the inner loop on an entry of the queue.\<close>

definition reached :: "int64 \<Rightarrow> int64 \<times> SignedTreeHead \<Rightarrow> bool" where
  "reached local_size e = (sint (tree_size (snd e)) \<le> sint local_size)"

text \<open>A sequence of heads whose sizes never go down.\<close>

definition non_decreasing :: "SignedTreeHead list \<Rightarrow> bool" where
  "non_decreasing hs = sorted_wrt (\<lambda>a b. sint (tree_size a) \<le> sint (tree_size b)) hs"

text \<open>No head of \<open>ps\<close> is larger than a head waiting in the queue.\<close>

definition below_queue :: "SignedTreeHead list \<Rightarrow> sth_map \<Rightarrow> bool" where
  "below_queue ps q =
     (\<forall>p \<in> set ps. \<forall>e \<in> set q. sint (tree_size p) \<le> sint (tree_size (snd e)))"

text \<open>Every erasure in a sequence of calls comes right after the promotion of its head.\<close>

definition erase_follows :: "action list \<Rightarrow> bool" where
  "erase_follows acts =
     (\<forall>pre k h post. acts = pre @ QueueErase k h # post
        \<longrightarrow> (\<exists>pre'. pre = pre' @ [NewTreeHead h]))"

subsection \<open>Sample inputs\<close>

text \<open>A head of the given size and timestamp, with empty hash and signature.\<close>

definition head_of_size :: "int64 \<Rightarrow> uint64 \<Rightarrow> SignedTreeHead" where
  "head_of_size n t = \<lparr>tree_size = n, timestamp = t, sha256_root_hash = [], signature = []\<rparr>"

text \<open>A machine on which the key file \<^verbatim>\<open>pilot.pem\<close> is the one readable, well-formed key.\<close>

definition sample_env :: env where
  "sample_env = \<lparr>access_R_OK = (\<lambda>p. p = ''pilot.pem''),
                 access_W_OK = (\<lambda>p. True),
                 ReadPublicKey_ok = (\<lambda>p. p = ''pilot.pem'')\<rparr>"

text \<open>A stand-alone mirror on LevelDB: the defaults, a database and the key file.\<close>

definition mirror_flags :: flags where
  "mirror_flags = default_flags\<lparr>FLAGS_leveldb_db := ''mirror.ldb'',
                                FLAGS_target_public_key := ''pilot.pem''\<rparr>"

section \<open>Properties of the map and of the callback\<close>

lemma sint_eq_imp: "sint (a :: 'a::len word) = sint b \<Longrightarrow> a = b"
  by (rule signed_word_eqI)

lemma map_find_Some_mem: "map_find k m = Some v \<Longrightarrow> (k, v) \<in> set m"
  by (induction m) (auto split: if_splits)

lemma set_map_insert_upper: "x \<in> set (map_insert (k, v) m) \<Longrightarrow> x = (k, v) \<or> x \<in> set m"
  by (induction m) (auto split: if_splits)

lemma set_map_insert_lower: "x \<in> set m \<Longrightarrow> x \<in> set (map_insert (k, v) m)"
  by (induction m) (auto split: if_splits)

lemma length_map_insert: "length m \<le> length (map_insert (k, v) m)"
  by (induction m) auto

lemma map_insert_ordered: "map_ordered m \<Longrightarrow> map_ordered (map_insert (k, v) m)"
  unfolding map_ordered_def
proof (induction m)
  case Nil
  then show ?case by simp
next
  case (Cons a m)
  obtain k' v' where a: "a = (k', v')" by (cases a)
  have neq: "k \<noteq> k' \<Longrightarrow> sint k \<noteq> sint k'"
    using sint_eq_imp by blast
  from Cons a show ?case
    by (auto dest!: set_map_insert_upper neq)
qed

lemma map_insert_present:
  "map_ordered m \<Longrightarrow> map_find k m \<noteq> None \<Longrightarrow> map_insert (k, v) m = m"
  unfolding map_ordered_def
proof (induction m)
  case Nil
  then show ?case by simp
next
  case (Cons a m)
  obtain k' v' where a: "a = (k', v')" by (cases a)
  show ?case
  proof (cases "k = k'")
    case True
    then show ?thesis by (simp add: a)
  next
    case False
    with Cons.prems a obtain w where w: "map_find k m = Some w" by auto
    then have "(k, w) \<in> set m" by (rule map_find_Some_mem)
    with Cons.prems a have "sint k' < sint k" by auto
    moreover from Cons w have "map_insert (k, v) m = m" by simp
    ultimately show ?thesis using False a by simp
  qed
qed

lemma map_insert_keyed: "keyed m \<Longrightarrow> k = tree_size v \<Longrightarrow> keyed (map_insert (k, v) m)"
  unfolding keyed_def by (induction m) auto

lemma new_sth_ordered: "map_ordered q \<Longrightarrow> map_ordered (new_sth sth q)"
  by (simp add: new_sth_def Let_def map_insert_ordered)

lemma new_sth_keyed: "keyed q \<Longrightarrow> keyed (new_sth sth q)"
  by (simp add: new_sth_def Let_def map_insert_keyed)

lemma new_sth_upper: "x \<in> set (new_sth sth q) \<Longrightarrow> x = (tree_size sth, sth) \<or> x \<in> set q"
  by (auto simp: new_sth_def Let_def dest: set_map_insert_upper split: if_splits)

lemma new_sth_lower: "x \<in> set q \<Longrightarrow> x \<in> set (new_sth sth q)"
  by (auto simp: new_sth_def Let_def intro: set_map_insert_lower)

lemma new_sth_length: "length q \<le> length (new_sth sth q)"
  by (simp add: new_sth_def Let_def length_map_insert)

lemma new_sth_present:
  "map_ordered q \<Longrightarrow> map_find (tree_size sth) q \<noteq> None \<Longrightarrow> new_sth sth q = q"
  by (simp add: new_sth_def Let_def map_insert_present)

lemma drain_rest: "snd (drain l q) = dropWhile (reached l) q"
  by (induction q) (auto simp: reached_def split_beta)

lemma drain_erased: "erased (fst (drain l q)) = takeWhile (reached l) q"
  by (induction q) (auto simp: reached_def split_beta)

lemma drain_promoted: "promoted (fst (drain l q)) = map snd (takeWhile (reached l) q)"
  by (induction q) (auto simp: reached_def split_beta)

lemma promoted_append: "promoted (as @ bs) = promoted as @ promoted bs"
  by (induction as rule: promoted.induct) auto

lemma erased_append: "erased (as @ bs) = erased as @ erased bs"
  by (induction as rule: erased.induct) auto

lemma body_rest: "snd (STHUpdater_body freq c l q) = dropWhile (reached l) q"
  by (simp add: STHUpdater_body_def split_beta drain_rest)

lemma body_promoted:
  "promoted (fst (STHUpdater_body freq c l q)) = map snd (takeWhile (reached l) q)"
  by (simp add: STHUpdater_body_def split_beta promoted_append drain_promoted)

lemma body_erased:
  "erased (fst (STHUpdater_body freq c l q)) = takeWhile (reached l) q"
  by (simp add: STHUpdater_body_def split_beta erased_append drain_erased)


lemma queue_inv_new_sth: "queue_inv q \<Longrightarrow> queue_inv (new_sth sth q)"
  by (simp add: queue_inv_def new_sth_ordered new_sth_keyed)

lemma queue_inv_body: "queue_inv q \<Longrightarrow> queue_inv (snd (STHUpdater_body freq c l q))"
  unfolding queue_inv_def body_rest map_ordered_def keyed_def
  by (auto simp: sorted_wrt_dropWhile list_all_iff dest: set_dropWhileD)

lemma queue_inv_node_run: "queue_inv q \<Longrightarrow> queue_inv (snd (node_run freq es q))"
proof (induction es arbitrary: q)
  case Nil
  then show ?case by simp
next
  case (Cons e es)
  show ?case
  proof (cases e)
    case (Deliver sth)
    with Cons show ?thesis by (simp add: queue_inv_new_sth)
  next
    case (Pass c l)
    from Cons.prems have "queue_inv (snd (STHUpdater_body freq c l q))"
      by (rule queue_inv_body)
    then have "queue_inv (snd (node_run freq es (snd (STHUpdater_body freq c l q))))"
      by (rule Cons.IH)
    with Pass show ?thesis by (simp add: split_beta)
  qed
qed

lemma ordered_distinct_keys: "map_ordered q \<Longrightarrow> distinct (map fst q)"
  unfolding map_ordered_def by (induction q) auto

lemma keyed_sizes: "keyed q \<Longrightarrow> map (\<lambda>(k, h). tree_size h) q = map fst q"
  unfolding keyed_def by (induction q) auto

lemma queue_inv_distinct: "queue_inv q \<Longrightarrow> distinct (map (\<lambda>(k, h). tree_size h) q)"
  by (simp add: queue_inv_def keyed_sizes ordered_distinct_keys)

section \<open>Properties of the loop\<close>

lemma erase_follows_Nil: "erase_follows []"
  by (simp add: erase_follows_def)

lemma erase_follows_Cons:
  assumes "erase_follows acts" and "\<And>k h. a \<noteq> QueueErase k h"
  shows "erase_follows (a # acts)"
  unfolding erase_follows_def
proof (intro allI impI)
  fix pre k h post
  assume eq: "a # acts = pre @ QueueErase k h # post"
  show "\<exists>pre'. pre = pre' @ [NewTreeHead h]"
  proof (cases pre)
    case Nil
    with eq assms(2) show ?thesis by simp
  next
    case (Cons x pre1)
    with eq have "acts = pre1 @ QueueErase k h # post" by simp
    with assms(1) obtain p where "pre1 = p @ [NewTreeHead h]"
      unfolding erase_follows_def by blast
    with Cons have "pre = (x # p) @ [NewTreeHead h]" by simp
    then show ?thesis by blast
  qed
qed

lemma erase_follows_pair:
  assumes "erase_follows acts"
  shows "erase_follows (NewTreeHead h0 # QueueErase k0 h0 # acts)"
  unfolding erase_follows_def
proof (intro allI impI)
  fix pre k h post
  assume eq: "NewTreeHead h0 # QueueErase k0 h0 # acts = pre @ QueueErase k h # post"
  show "\<exists>pre'. pre = pre' @ [NewTreeHead h]"
  proof (cases pre)
    case Nil
    with eq show ?thesis by simp
  next
    case outer: (Cons x pre1)
    show ?thesis
    proof (cases pre1)
      case Nil
      with outer eq show ?thesis by auto
    next
      case (Cons y pre2)
      with outer eq have "acts = pre2 @ QueueErase k h # post" by simp
      with assms obtain p where "pre2 = p @ [NewTreeHead h]"
        unfolding erase_follows_def by blast
      with outer Cons have "pre = (x # y # p) @ [NewTreeHead h]" by simp
      then show ?thesis by blast
    qed
  qed
qed

lemma erase_follows_snoc:
  assumes "erase_follows acts" and "\<And>k h. a \<noteq> QueueErase k h"
  shows "erase_follows (acts @ [a])"
  unfolding erase_follows_def
proof (intro allI impI)
  fix pre k h post
  assume eq: "acts @ [a] = pre @ QueueErase k h # post"
  show "\<exists>pre'. pre = pre' @ [NewTreeHead h]"
  proof (cases post rule: rev_cases)
    case Nil
    with eq assms(2) show ?thesis by simp
  next
    case (snoc post1 z)
    with eq have "acts @ [a] = (pre @ QueueErase k h # post1) @ [z]" by simp
    then have "acts = pre @ QueueErase k h # post1" by (simp only: append1_eq_conv)
    with assms(1) show ?thesis unfolding erase_follows_def by blast
  qed
qed

lemma erase_follows_drain: "erase_follows (fst (drain l q))"
proof (induction q)
  case Nil
  then show ?case by (simp add: erase_follows_Nil)
next
  case (Cons a q)
  obtain k h where a: "a = (k, h)" by (cases a)
  from Cons show ?case
    by (simp add: a split_beta erase_follows_Nil erase_follows_pair)
qed

lemma erase_follows_body: "erase_follows (fst (STHUpdater_body freq c l q))"
proof -
  have "erase_follows (fst (drain l q) @ [SleepFor freq])"
    by (rule erase_follows_snoc [OF erase_follows_drain]) simp
  then have "erase_follows (GaugeSet l # fst (drain l q) @ [SleepFor freq])"
    by (rule erase_follows_Cons) simp
  moreover from this
  have "erase_follows (TaskReturn CANCELLED # GaugeSet l # fst (drain l q) @ [SleepFor freq])"
    by (rule erase_follows_Cons) simp
  ultimately show ?thesis
    by (simp add: STHUpdater_body_def split_beta)
qed

lemma keyed_snd: "keyed q \<Longrightarrow> e \<in> set q \<Longrightarrow> fst e = tree_size (snd e)"
  by (auto simp: keyed_def list_all_iff)

lemma taken_non_decreasing:
  assumes "queue_inv q"
  shows "non_decreasing (map snd (takeWhile P q))"
proof -
  from assms have k: "keyed q" by (simp add: queue_inv_def)
  have key: "fst e = tree_size (snd e)" if "e \<in> set (takeWhile P q)" for e
  proof -
    from that have "e \<in> set q" by (rule set_takeWhileD [THEN conjunct1])
    with k show ?thesis by (rule keyed_snd)
  qed
  from assms have s1: "sorted_wrt (\<lambda>a b. sint (fst a) < sint (fst b)) (takeWhile P q)"
    by (simp add: queue_inv_def map_ordered_def sorted_wrt_takeWhile)
  have "sorted_wrt (\<lambda>a b. sint (tree_size (snd a)) \<le> sint (tree_size (snd b)))
          (takeWhile P q)"
  proof (rule sorted_wrt_mono_rel [OF _ s1])
    fix x y
    assume "x \<in> set (takeWhile P q)" and "y \<in> set (takeWhile P q)"
      and "sint (fst x) < sint (fst y)"
    then show "sint (tree_size (snd x)) \<le> sint (tree_size (snd y))"
      by (simp add: key)
  qed
  then show ?thesis by (simp add: non_decreasing_def sorted_wrt_map)
qed

lemma taken_below_left:
  assumes "queue_inv q"
  shows "below_queue (map snd (takeWhile P q)) (dropWhile P q)"
proof -
  from assms have "sorted_wrt (\<lambda>a b. sint (fst a) < sint (fst b)) (takeWhile P q @ dropWhile P q)"
    by (simp add: queue_inv_def map_ordered_def)
  then have lt: "\<And>a b. a \<in> set (takeWhile P q) \<Longrightarrow> b \<in> set (dropWhile P q)
                 \<Longrightarrow> sint (fst a) < sint (fst b)"
    unfolding sorted_wrt_append by blast
  from assms have k: "keyed q" by (simp add: queue_inv_def)
  have key: "\<And>e. e \<in> set q \<Longrightarrow> fst e = tree_size (snd e)"
    using k by (rule keyed_snd)
  show ?thesis
    unfolding below_queue_def
  proof (intro ballI)
    fix p e
    assume "p \<in> set (map snd (takeWhile P q))" and e: "e \<in> set (dropWhile P q)"
    then obtain a where a: "a \<in> set (takeWhile P q)" and p: "p = snd a" by auto
    from a have "fst a = tree_size (snd a)" by (auto dest: set_takeWhileD intro: key)
    moreover from e have "fst e = tree_size (snd e)" by (auto dest: set_dropWhileD intro: key)
    moreover from a e have "sint (fst a) < sint (fst e)" by (rule lt)
    ultimately show "sint (tree_size p) \<le> sint (tree_size (snd e))" using p by simp
  qed
qed

lemma below_queue_subset: "below_queue ps q \<Longrightarrow> set q' \<subseteq> set q \<Longrightarrow> below_queue ps q'"
  unfolding below_queue_def by blast

lemma below_queue_append:
  "below_queue (ps @ ps') q \<longleftrightarrow> below_queue ps q \<and> below_queue ps' q"
  unfolding below_queue_def by auto

lemma non_decreasing_append:
  "non_decreasing (xs @ ys) \<longleftrightarrow>
     non_decreasing xs \<and> non_decreasing ys
     \<and> (\<forall>x \<in> set xs. \<forall>y \<in> set ys. sint (tree_size x) \<le> sint (tree_size y))"
  by (simp add: non_decreasing_def sorted_wrt_append)

lemma promoted_in_order:
  assumes "queue_inv q" and "non_decreasing ps" and "below_queue ps q" and "timely freq es q ps"
  shows "non_decreasing (ps @ promoted (fst (node_run freq es q)))"
  using assms
proof (induction es arbitrary: q ps)
  case Nil
  then show ?case by simp
next
  case (Cons e es)
  show ?case
  proof (cases e)
    case (Deliver sth)
    from Cons.prems have inv: "queue_inv (new_sth sth q)" by (simp add: queue_inv_new_sth)
    from Cons.prems Deliver
    have late: "\<forall>p \<in> set ps. sint (tree_size p) \<le> sint (tree_size sth)"
      and rest: "timely freq es (new_sth sth q) ps"
      by (simp_all add: list_all_iff)
    have bq: "below_queue ps (new_sth sth q)"
      unfolding below_queue_def
    proof (intro ballI)
      fix p x
      assume p: "p \<in> set ps" and "x \<in> set (new_sth sth q)"
      then have "x = (tree_size sth, sth) \<or> x \<in> set q" by (auto dest: new_sth_upper)
      with p late Cons.prems(3) show "sint (tree_size p) \<le> sint (tree_size (snd x))"
        by (auto simp: below_queue_def)
    qed
    have "non_decreasing (ps @ promoted (fst (node_run freq es (new_sth sth q))))"
      by (rule Cons.IH [OF inv Cons.prems(2) bq rest])
    with Deliver show ?thesis by simp
  next
    case (Pass c l)
    let ?taken = "map snd (takeWhile (reached l) q)"
    let ?rest = "dropWhile (reached l) q"
    have "queue_inv (snd (STHUpdater_body freq c l q))"
      using Cons.prems(1) by (rule queue_inv_body)
    then have inv: "queue_inv ?rest" by (simp only: body_rest)
    have cross: "sint (tree_size x) \<le> sint (tree_size y)"
      if "x \<in> set ps" and "y \<in> set ?taken" for x y
    proof -
      from that(2) obtain a where "a \<in> set (takeWhile (reached l) q)" and y: "y = snd a"
        by auto
      then have "a \<in> set q" by (auto dest: set_takeWhileD)
      with Cons.prems(3) that(1) have "sint (tree_size x) \<le> sint (tree_size (snd a))"
        by (simp add: below_queue_def)
      with y show ?thesis by simp
    qed
    have nd: "non_decreasing (ps @ ?taken)"
      unfolding non_decreasing_append
      using Cons.prems(2) taken_non_decreasing [OF Cons.prems(1), of "reached l"] cross
      by simp
    have "below_queue ps ?rest"
      by (rule below_queue_subset [OF Cons.prems(3)]) (auto dest: set_dropWhileD)
    with taken_below_left [OF Cons.prems(1), of "reached l"]
    have bq: "below_queue (ps @ ?taken) ?rest"
      by (simp add: below_queue_append)
    from Cons.prems(4) Pass have tm: "timely freq es ?rest (ps @ ?taken)"
      by (simp add: split_beta body_rest [symmetric, of l q freq c]
                    body_promoted [symmetric, of l q freq c])
    have "non_decreasing ((ps @ ?taken) @ promoted (fst (node_run freq es ?rest)))"
      by (rule Cons.IH [OF inv nd bq tm])
    with Pass show ?thesis
      by (simp add: split_beta promoted_append body_promoted body_rest)
  qed
qed

lemma STHUpdater_body_cancel:
  "STHUpdater_body freq True l q =
     (TaskReturn CANCELLED # GaugeSet l # fst (drain l q) @ [SleepFor freq], snd (drain l q))"
  by (simp add: STHUpdater_body_def split_beta)

section \<open>The claims\<close>

subsection \<open>The pending queue\<close>

text \<open>
  C1. The claim: of two heads of equal \<open>tree_size\<close> delivered to the callback, the queue
  keeps the one with the larger timestamp, so that a newer head replaces an older one
  filed under the same size. The code does not do that: the callback returns early only
  for an older head, and for a newer one it calls \<^verbatim>\<open>map::insert\<close>, which leaves an
  existing key alone. With the head of size 5 and timestamp 1 in the queue, the delivery
  of the head of size 5 and timestamp 2 changes nothing; the older head stays.
\<close>

theorem new_sth_keeps_older_head:
  "new_sth \<lparr>tree_size = 5, timestamp = 2, sha256_root_hash = [], signature = []\<rparr>
     (new_sth \<lparr>tree_size = 5, timestamp = 1, sha256_root_hash = [], signature = []\<rparr> [])
   = [(5, \<lparr>tree_size = 5, timestamp = 1, sha256_root_hash = [], signature = []\<rparr>)]"
  by (simp add: new_sth_def)

text \<open>
  C5. A head delivered to the callback whose size is in the queue with a strictly newer
  timestamp leaves the queue as it is, and the queue of a node, which starts empty, never
  holds two entries of the same \<open>tree_size\<close>, whatever is delivered and however the
  passes of the loop fall in between.
\<close>

theorem older_duplicate_is_noop:
  "(map_find (tree_size sth) queue = Some old \<and> timestamp sth < timestamp old
      \<longrightarrow> new_sth sth queue = queue)
   \<and> distinct (map (\<lambda>(k, h). tree_size h) (snd (node_run freq es [])))"
proof -
  have "queue_inv []" by (simp add: queue_inv_def map_ordered_def keyed_def)
  then have "queue_inv (snd (node_run freq es []))" by (rule queue_inv_node_run)
  then have "distinct (map (\<lambda>(k, h). tree_size h) (snd (node_run freq es [])))"
    by (rule queue_inv_distinct)
  then show ?thesis by (simp add: new_sth_def)
qed

theorem older_duplicate_is_noop_witness:
  "map_find (tree_size (head_of_size 5 1)) [(5, head_of_size 5 2)] = Some (head_of_size 5 2)
   \<and> timestamp (head_of_size 5 1) < timestamp (head_of_size 5 2)
   \<and> new_sth (head_of_size 5 1) [(5, head_of_size 5 2)] = [(5, head_of_size 5 2)]
   \<and> distinct (map (\<lambda>(k, h). tree_size h)
        (snd (node_run 30 [Deliver (head_of_size 5 2), Deliver (head_of_size 5 1),
                           Pass False 4, Deliver (head_of_size 7 3)] [])))"
proof -
  have a: "map_find (tree_size (head_of_size 5 1)) [(5, head_of_size 5 2)]
             = Some (head_of_size 5 2)
           \<and> timestamp (head_of_size 5 1) < timestamp (head_of_size 5 2)"
    by (simp add: head_of_size_def)
  from a older_duplicate_is_noop
         [where sth = "head_of_size 5 1" and queue = "[(5, head_of_size 5 2)]"
            and old = "head_of_size 5 2" and freq = 30
            and es = "[Deliver (head_of_size 5 2), Deliver (head_of_size 5 1),
                       Pass False 4, Deliver (head_of_size 7 3)]"]
  show ?thesis by simp
qed

text \<open>
  C6. Entries leave the queue by promotion only. The callback removes nothing: every
  entry of the queue is in the queue it leaves behind, which is at least as long. In a
  pass of the loop, the queue before the pass is the erased entries followed by the queue
  after it, and every erasure is the call right after
  \<^verbatim>\<open>ClusterStateController::NewTreeHead\<close> on the head of the erased entry.
\<close>

theorem removal_only_by_promotion:
  "set queue \<subseteq> set (new_sth sth queue)
   \<and> length queue \<le> length (new_sth sth queue)
   \<and> queue = erased (fst (STHUpdater_body freq cancel local_size queue))
               @ snd (STHUpdater_body freq cancel local_size queue)
   \<and> (fst (STHUpdater_body freq cancel local_size queue) = pre @ QueueErase k h # post
        \<longrightarrow> (\<exists>pre'. pre = pre' @ [NewTreeHead h]))"
proof -
  have "set queue \<subseteq> set (new_sth sth queue)"
    using new_sth_lower by blast
  moreover have "length queue \<le> length (new_sth sth queue)"
    by (rule new_sth_length)
  moreover have "queue = erased (fst (STHUpdater_body freq cancel local_size queue))
               @ snd (STHUpdater_body freq cancel local_size queue)"
    by (simp add: body_erased body_rest)
  moreover have "fst (STHUpdater_body freq cancel local_size queue) = pre @ QueueErase k h # post
        \<longrightarrow> (\<exists>pre'. pre = pre' @ [NewTreeHead h])"
    using erase_follows_body [of freq cancel local_size queue]
    unfolding erase_follows_def by blast
  ultimately show ?thesis by blast
qed

theorem removal_only_by_promotion_witness:
  "fst (STHUpdater_body 30 False 5 [(3, head_of_size 3 1), (10, head_of_size 10 2)])
     = [GaugeSet 5, NewTreeHead (head_of_size 3 1)]
         @ QueueErase 3 (head_of_size 3 1) # [SleepFor 30]
   \<and> (\<exists>pre'. [GaugeSet 5, NewTreeHead (head_of_size 3 1)]
                = pre' @ [NewTreeHead (head_of_size 3 1)])
   \<and> [(3, head_of_size 3 1), (10, head_of_size 10 2)]
       = erased (fst (STHUpdater_body 30 False 5
                        [(3, head_of_size 3 1), (10, head_of_size 10 2)]))
         @ snd (STHUpdater_body 30 False 5 [(3, head_of_size 3 1), (10, head_of_size 10 2)])"
proof -
  have a: "fst (STHUpdater_body 30 False 5 [(3, head_of_size 3 1), (10, head_of_size 10 2)])
     = [GaugeSet 5, NewTreeHead (head_of_size 3 1)]
         @ QueueErase 3 (head_of_size 3 1) # [SleepFor 30]"
    by (simp add: STHUpdater_body_def head_of_size_def)
  from a removal_only_by_promotion
         [where queue = "[(3, head_of_size 3 1), (10, head_of_size 10 2)]"
            and sth = "head_of_size 3 1" and freq = 30 and cancel = False
            and local_size = 5 and pre = "[GaugeSet 5, NewTreeHead (head_of_size 3 1)]"
            and k = 3 and h = "head_of_size 3 1" and post = "[SleepFor 30]"]
  show ?thesis by blast
qed

subsection \<open>Promotion\<close>

text \<open>
  C2. Every head that a pass of the loop hands to
  \<^verbatim>\<open>ClusterStateController::NewTreeHead\<close> has a \<open>tree_size\<close> of at most the size of the
  database read in that pass. A queued head whose size is above it is not promoted in
  the pass and is still in the queue after it.
\<close>

theorem promoted_within_local_size:
  "(h \<in> set (promoted (fst (STHUpdater_body freq cancel local_size queue)))
      \<longrightarrow> sint (tree_size h) \<le> sint local_size)
   \<and> ((k, h') \<in> set queue \<and> sint local_size < sint (tree_size h')
      \<longrightarrow> (k, h') \<in> set (snd (STHUpdater_body freq cancel local_size queue))
          \<and> h' \<notin> set (promoted (fst (STHUpdater_body freq cancel local_size queue))))"
proof -
  have a: "\<And>x. x \<in> set (takeWhile (reached local_size) queue) \<Longrightarrow> reached local_size x"
    by (rule set_takeWhileD [THEN conjunct2])
  have b: "\<And>x. x \<in> set queue \<Longrightarrow> \<not> reached local_size x
             \<Longrightarrow> x \<in> set (dropWhile (reached local_size) queue)"
    by (metis Un_iff a set_append takeWhile_dropWhile_id)
  show ?thesis
    unfolding body_promoted body_rest
    using a b by (force simp: reached_def)
qed

theorem promoted_within_local_size_witness:
  "head_of_size 3 1
     \<in> set (promoted (fst (STHUpdater_body 30 False 5
                              [(3, head_of_size 3 1), (10, head_of_size 10 2)])))
   \<and> sint (tree_size (head_of_size 3 1)) \<le> sint (5 :: int64)
   \<and> (10 :: int64, head_of_size 10 2) \<in> set [(3, head_of_size 3 1), (10, head_of_size 10 2)]
   \<and> sint (5 :: int64) < sint (tree_size (head_of_size 10 2))
   \<and> (10, head_of_size 10 2)
       \<in> set (snd (STHUpdater_body 30 False 5
                      [(3, head_of_size 3 1), (10, head_of_size 10 2)]))
   \<and> head_of_size 10 2
       \<notin> set (promoted (fst (STHUpdater_body 30 False 5
                                [(3, head_of_size 3 1), (10, head_of_size 10 2)])))"
proof -
  have a: "head_of_size 3 1
     \<in> set (promoted (fst (STHUpdater_body 30 False 5
                              [(3, head_of_size 3 1), (10, head_of_size 10 2)])))"
    by (simp add: STHUpdater_body_def head_of_size_def)
  have b: "(10 :: int64, head_of_size 10 2) \<in> set [(3, head_of_size 3 1), (10, head_of_size 10 2)]
           \<and> sint (5 :: int64) < sint (tree_size (head_of_size 10 2))"
    by (simp add: head_of_size_def)
  from a b promoted_within_local_size
         [where h = "head_of_size 3 1" and freq = 30 and cancel = False and local_size = 5
            and queue = "[(3, head_of_size 3 1), (10, head_of_size 10 2)]"
            and k = 10 and h' = "head_of_size 10 2"]
  show ?thesis by blast
qed

text \<open>
  C3. The claim: over all passes of the loop, the heads handed to
  \<^verbatim>\<open>ClusterStateController::NewTreeHead\<close> never go down in \<open>tree_size\<close>. It fails when a
  smaller head arrives late: the head of size 10 is delivered and promoted, then the head
  of size 3 is delivered, and the next pass promotes it after the head of size 10.
\<close>

theorem promotion_order_counterexample:
  "\<not> non_decreasing (promoted (fst (node_run 30
      [Deliver \<lparr>tree_size = 10, timestamp = 1, sha256_root_hash = [], signature = []\<rparr>,
       Pass False 10,
       Deliver \<lparr>tree_size = 3, timestamp = 2, sha256_root_hash = [], signature = []\<rparr>,
       Pass False 10] [])))"
  by (simp add: new_sth_def STHUpdater_body_def non_decreasing_def)

text \<open>
  C3, as amended. In a run of the node that starts with the empty queue and in which no
  head is delivered to the callback whose \<open>tree_size\<close> is below that of a head already
  promoted, the heads handed to \<^verbatim>\<open>ClusterStateController::NewTreeHead\<close>, over all passes
  of the loop, never go down in \<open>tree_size\<close>.
\<close>

theorem promotion_order_when_timely:
  assumes "timely freq es [] []"
  shows "non_decreasing (promoted (fst (node_run freq es [])))"
proof -
  have "queue_inv []" by (simp add: queue_inv_def map_ordered_def keyed_def)
  moreover have "non_decreasing []" by (simp add: non_decreasing_def)
  moreover have "below_queue [] []" by (simp add: below_queue_def)
  ultimately have "non_decreasing ([] @ promoted (fst (node_run freq es [])))"
    using assms by (rule promoted_in_order)
  then show ?thesis by simp
qed

theorem promotion_order_when_timely_witness:
  "timely 30 [Deliver (head_of_size 3 1), Deliver (head_of_size 10 2), Pass False 5,
              Deliver (head_of_size 7 3), Pass False 10] [] []
   \<and> non_decreasing (promoted (fst (node_run 30
        [Deliver (head_of_size 3 1), Deliver (head_of_size 10 2), Pass False 5,
         Deliver (head_of_size 7 3), Pass False 10] [])))
   \<and> promoted (fst (node_run 30
        [Deliver (head_of_size 3 1), Deliver (head_of_size 10 2), Pass False 5,
         Deliver (head_of_size 7 3), Pass False 10] []))
       = [head_of_size 3 1, head_of_size 7 3, head_of_size 10 2]"
proof -
  have t: "timely 30 [Deliver (head_of_size 3 1), Deliver (head_of_size 10 2), Pass False 5,
                      Deliver (head_of_size 7 3), Pass False 10] [] []"
    by (simp add: new_sth_def STHUpdater_body_def head_of_size_def)
  have p: "promoted (fst (node_run 30
        [Deliver (head_of_size 3 1), Deliver (head_of_size 10 2), Pass False 5,
         Deliver (head_of_size 7 3), Pass False 10] []))
       = [head_of_size 3 1, head_of_size 7 3, head_of_size 10 2]"
    by (simp add: new_sth_def STHUpdater_body_def head_of_size_def)
  from t promotion_order_when_timely [OF t] p show ?thesis by blast
qed

subsection \<open>Cancellation\<close>

text \<open>
  C4. The claim: once the cancellation check of the loop sees a requested cancel, the loop
  leaves before its next sleep and runs no further pass. The code calls
  \<^verbatim>\<open>task->Return(util::Status::CANCELLED)\<close> and goes on. With a cancel requested at the
  first check and at the second, the size of the database 7 and the head of size 5
  queued, the first pass still sets the gauge, promotes and erases the head and sleeps, and
  the second pass follows.
\<close>

theorem STHUpdater_continues_after_cancel:
  "STHUpdater 30 [(True, 7), (True, 7)]
     [(5, \<lparr>tree_size = 5, timestamp = 1, sha256_root_hash = [], signature = []\<rparr>)]
   = ([TaskReturn CANCELLED, GaugeSet 7,
       NewTreeHead \<lparr>tree_size = 5, timestamp = 1, sha256_root_hash = [], signature = []\<rparr>,
       QueueErase 5 \<lparr>tree_size = 5, timestamp = 1, sha256_root_hash = [], signature = []\<rparr>,
       SleepFor 30,
       TaskReturn CANCELLED, GaugeSet 7, SleepFor 30], [])"
  by (simp add: STHUpdater_body_def)

subsection \<open>Start-up\<close>

text \<open>
  C7. When the flags do not select exactly one storage backend, that is when the number
  of those selected among \<^verbatim>\<open>sqlite_db\<close>, \<^verbatim>\<open>leveldb_db\<close> and the file directories (selected
  when \<^verbatim>\<open>cert_dir\<close> or \<^verbatim>\<open>tree_dir\<close> is given) is 0 or above 1, the process ends with exit
  status 1 before it has constructed or called any of its collaborators.
\<close>

theorem backend_conflict_exits:
  "selected_backends f \<noteq> 1 \<Longrightarrow> main e f = (Exited 1, [])"
  by (simp add: main_def)

theorem backend_conflict_exits_witness:
  "selected_backends (mirror_flags\<lparr>FLAGS_sqlite_db := ''mirror.sqlite''\<rparr>) \<noteq> 1
   \<and> main sample_env (mirror_flags\<lparr>FLAGS_sqlite_db := ''mirror.sqlite''\<rparr>) = (Exited 1, [])
   \<and> selected_backends (mirror_flags\<lparr>FLAGS_leveldb_db := []\<rparr>) \<noteq> 1
   \<and> main sample_env (mirror_flags\<lparr>FLAGS_leveldb_db := []\<rparr>) = (Exited 1, [])"
proof -
  have a: "selected_backends (mirror_flags\<lparr>FLAGS_sqlite_db := ''mirror.sqlite''\<rparr>) \<noteq> 1"
    by (simp add: selected_backends_def mirror_flags_def default_flags_def)
  have b: "selected_backends (mirror_flags\<lparr>FLAGS_leveldb_db := []\<rparr>) \<noteq> 1"
    by (simp add: selected_backends_def mirror_flags_def default_flags_def)
  from a b backend_conflict_exits [OF a, of sample_env] backend_conflict_exits [OF b, of sample_env]
  show ?thesis by blast
qed

text \<open>
  C8. With the flag \<^verbatim>\<open>etcd_host\<close> empty, a start-up whose flags pass their validators,
  select exactly one storage backend and do not name the same certificate and tree
  directory for the file backend makes these calls first, in this order: the database,
  the in-process fake cluster store, the server and its initialisation, the cluster
  configuration with \<open>minimum_serving_nodes = 1\<close> and \<open>minimum_serving_fraction = 1\<close>, the
  start of the election and the wait to become master. Only after them is the key read
  and are the peer, the fetcher and the updater thread started, and the start-up reaches
  the serving state exactly when the key file and the log address are given and the key
  is read well; otherwise it aborts with the calls made so far. A start-up that fails one
  of the three conditions ends in failure with no call made.
\<close>

theorem stand_alone_bootstrap_first:
  assumes "FLAGS_etcd_host f = []"
  shows "(ParseCommandLineFlags e f \<and> selected_backends f = 1
            \<and> \<not> (FLAGS_sqlite_db f = [] \<and> FLAGS_leveldb_db f = []
                    \<and> FLAGS_cert_dir f = FLAGS_tree_dir f)
          \<longrightarrow> main e f =
               (if FLAGS_target_public_key f = [] \<or> FLAGS_target_log_uri f = [] then Aborted
                else if \<not> ReadPublicKey_ok e (FLAGS_target_public_key f) then Aborted
                else Serving,
                [NewDatabase (open_database f), NewEtcdClient FakeEtcdClient,
                 NewServer (options f), ServerInitialise True,
                 SetClusterConfig \<lparr>minimum_serving_nodes = 1, minimum_serving_fraction = 1\<rparr>,
                 StartElection, WaitToBecomeMaster]
                @ (if FLAGS_target_public_key f = [] \<or> FLAGS_target_log_uri f = [] then []
                   else if \<not> ReadPublicKey_ok e (FLAGS_target_public_key f)
                     then [ReadPublicKey (FLAGS_target_public_key f)]
                   else [ReadPublicKey (FLAGS_target_public_key f),
                         NewRemotePeer (FLAGS_target_log_uri f), NewContinuousFetcher,
                         AddPeer ''target'', StartSTHUpdater, ServerRun])))
       \<and> (\<not> (ParseCommandLineFlags e f \<and> selected_backends f = 1
               \<and> \<not> (FLAGS_sqlite_db f = [] \<and> FLAGS_leveldb_db f = []
                       \<and> FLAGS_cert_dir f = FLAGS_tree_dir f))
          \<longrightarrow> fst (main e f) \<in> {Exited 1, Aborted} \<and> snd (main e f) = [])"
  using assms
  by (auto simp: main_def construct_server_def stand_alone_setup_def start_pipeline_def Let_def)

theorem stand_alone_bootstrap_first_witness:
  "FLAGS_etcd_host (mirror_flags\<lparr>FLAGS_port := 8080\<rparr>) = []
   \<and> ParseCommandLineFlags sample_env (mirror_flags\<lparr>FLAGS_port := 8080\<rparr>)
   \<and> selected_backends (mirror_flags\<lparr>FLAGS_port := 8080\<rparr>) = 1
   \<and> main sample_env (mirror_flags\<lparr>FLAGS_port := 8080\<rparr>) =
       (Serving,
        [NewDatabase (LevelDB ''mirror.ldb''), NewEtcdClient FakeEtcdClient,
         NewServer \<lparr>server = ''localhost'', port = 8080, etcd_root = ''/root'',
                    num_http_server_threads = 16\<rparr>,
         ServerInitialise True,
         SetClusterConfig \<lparr>minimum_serving_nodes = 1, minimum_serving_fraction = 1\<rparr>,
         StartElection, WaitToBecomeMaster,
         ReadPublicKey ''pilot.pem'',
         NewRemotePeer ''http://ct.googleapis.com/pilot'', NewContinuousFetcher,
         AddPeer ''target'', StartSTHUpdater, ServerRun])
   \<and> FLAGS_etcd_host default_flags = []
   \<and> \<not> ParseCommandLineFlags sample_env default_flags
   \<and> fst (main sample_env default_flags) \<in> {Exited 1, Aborted}
   \<and> snd (main sample_env default_flags) = []"
proof -
  let ?f = "mirror_flags\<lparr>FLAGS_port := 8080\<rparr>"
  have a: "FLAGS_etcd_host ?f = []"
    by (simp add: mirror_flags_def default_flags_def)
  have b: "ParseCommandLineFlags sample_env ?f"
    by (simp add: mirror_flags_def default_flags_def sample_env_def
          ParseCommandLineFlags_def ValidatePort_def ValidateRead_def ValidateWrite_def
          ValidateIsNonNegative_def ValidateIsPositive_def)
  have c: "selected_backends ?f = 1"
    by (simp add: selected_backends_def mirror_flags_def default_flags_def)
  have d: "\<not> (FLAGS_sqlite_db ?f = [] \<and> FLAGS_leveldb_db ?f = []
              \<and> FLAGS_cert_dir ?f = FLAGS_tree_dir ?f)"
    by (simp add: mirror_flags_def default_flags_def)
  have k: "FLAGS_target_public_key ?f = ''pilot.pem''"
          "FLAGS_target_log_uri ?f = ''http://ct.googleapis.com/pilot''"
          "ReadPublicKey_ok sample_env ''pilot.pem''"
          "open_database ?f = LevelDB ''mirror.ldb''"
          "options ?f = \<lparr>server = ''localhost'', port = 8080, etcd_root = ''/root'',
                    num_http_server_threads = 16\<rparr>"
    by (simp_all add: mirror_flags_def default_flags_def sample_env_def open_database_def
          options_def)
  from stand_alone_bootstrap_first [OF a, of sample_env] b c d
  have "main sample_env ?f =
               (if FLAGS_target_public_key ?f = [] \<or> FLAGS_target_log_uri ?f = [] then Aborted
                else if \<not> ReadPublicKey_ok sample_env (FLAGS_target_public_key ?f) then Aborted
                else Serving,
                [NewDatabase (open_database ?f), NewEtcdClient FakeEtcdClient,
                 NewServer (options ?f), ServerInitialise True,
                 SetClusterConfig \<lparr>minimum_serving_nodes = 1, minimum_serving_fraction = 1\<rparr>,
                 StartElection, WaitToBecomeMaster]
                @ (if FLAGS_target_public_key ?f = [] \<or> FLAGS_target_log_uri ?f = [] then []
                   else if \<not> ReadPublicKey_ok sample_env (FLAGS_target_public_key ?f)
                     then [ReadPublicKey (FLAGS_target_public_key ?f)]
                   else [ReadPublicKey (FLAGS_target_public_key ?f),
                         NewRemotePeer (FLAGS_target_log_uri ?f), NewContinuousFetcher,
                         AddPeer ''target'', StartSTHUpdater, ServerRun]))"
    by blast
  then have m: "main sample_env ?f =
       (Serving,
        [NewDatabase (LevelDB ''mirror.ldb''), NewEtcdClient FakeEtcdClient,
         NewServer \<lparr>server = ''localhost'', port = 8080, etcd_root = ''/root'',
                    num_http_server_threads = 16\<rparr>,
         ServerInitialise True,
         SetClusterConfig \<lparr>minimum_serving_nodes = 1, minimum_serving_fraction = 1\<rparr>,
         StartElection, WaitToBecomeMaster,
         ReadPublicKey ''pilot.pem'',
         NewRemotePeer ''http://ct.googleapis.com/pilot'', NewContinuousFetcher,
         AddPeer ''target'', StartSTHUpdater, ServerRun])"
    by (simp only: k) simp
  have a': "FLAGS_etcd_host default_flags = []" by (simp add: default_flags_def)
  have b': "\<not> ParseCommandLineFlags sample_env default_flags"
    by (simp add: default_flags_def sample_env_def ParseCommandLineFlags_def ValidateRead_def)
  from stand_alone_bootstrap_first [OF a', of sample_env] b'
  have "fst (main sample_env default_flags) \<in> {Exited 1, Aborted}
        \<and> snd (main sample_env default_flags) = []" by blast
  with a b c m a' b' show ?thesis by blast
qed

text \<open>
  C9. With neither \<^verbatim>\<open>sqlite_db\<close> nor \<^verbatim>\<open>leveldb_db\<close> given: when the certificate directory
  equals the tree directory, start-up ends in failure before the database is constructed,
  and it is the check of line 272 that aborts the process once the flags have passed
  their validators and the file backend is the one selected; a database is constructed
  only when the two directories differ, and it is then the file database on them.
\<close>

theorem cert_dir_tree_dir_must_differ:
  assumes "FLAGS_sqlite_db f = []" and "FLAGS_leveldb_db f = []"
  shows "(FLAGS_cert_dir f = FLAGS_tree_dir f \<longrightarrow>
            fst (main e f) \<in> {Exited 1, Aborted} \<and> snd (main e f) = [])
       \<and> (FLAGS_cert_dir f = FLAGS_tree_dir f \<and> ParseCommandLineFlags e f
            \<and> selected_backends f = 1 \<longrightarrow> main e f = (Aborted, []))
       \<and> (NewDatabase db \<in> set (snd (main e f)) \<longrightarrow>
            FLAGS_cert_dir f \<noteq> FLAGS_tree_dir f
            \<and> db = FileDB (FLAGS_cert_dir f, FLAGS_cert_storage_depth f)
                  (FLAGS_tree_dir f, FLAGS_tree_storage_depth f) (FLAGS_meta_dir f, 0))"
  using assms
  by (auto simp: main_def construct_server_def stand_alone_setup_def start_pipeline_def
        open_database_def Let_def split: if_splits)

theorem cert_dir_tree_dir_must_differ_witness:
  "main sample_env (mirror_flags\<lparr>FLAGS_leveldb_db := [], FLAGS_cert_dir := ''store'',
                                 FLAGS_tree_dir := ''store''\<rparr>) = (Aborted, [])
   \<and> NewDatabase (FileDB (''certs'', 0) (''trees'', 0) ([], 0))
       \<in> set (snd (main sample_env (mirror_flags\<lparr>FLAGS_leveldb_db := [],
                       FLAGS_cert_dir := ''certs'', FLAGS_tree_dir := ''trees''\<rparr>)))
   \<and> ''certs'' \<noteq> ''trees''"
proof -
  let ?same = "mirror_flags\<lparr>FLAGS_leveldb_db := [], FLAGS_cert_dir := ''store'',
                            FLAGS_tree_dir := ''store''\<rparr>"
  let ?differ = "mirror_flags\<lparr>FLAGS_leveldb_db := [], FLAGS_cert_dir := ''certs'',
                              FLAGS_tree_dir := ''trees''\<rparr>"
  have a: "FLAGS_sqlite_db ?same = []" "FLAGS_leveldb_db ?same = []"
    by (simp_all add: mirror_flags_def default_flags_def)
  have b: "FLAGS_cert_dir ?same = FLAGS_tree_dir ?same \<and> ParseCommandLineFlags sample_env ?same
           \<and> selected_backends ?same = 1"
    by (simp add: mirror_flags_def default_flags_def sample_env_def
          ParseCommandLineFlags_def ValidatePort_def ValidateRead_def ValidateWrite_def
          ValidateIsNonNegative_def ValidateIsPositive_def selected_backends_def)
  have c: "FLAGS_sqlite_db ?differ = []" "FLAGS_leveldb_db ?differ = []"
    by (simp_all add: mirror_flags_def default_flags_def)
  have d: "NewDatabase (FileDB (''certs'', 0) (''trees'', 0) ([], 0))
             \<in> set (snd (main sample_env ?differ))"
    by (simp add: main_def mirror_flags_def default_flags_def sample_env_def
          ParseCommandLineFlags_def ValidatePort_def ValidateRead_def ValidateWrite_def
          ValidateIsNonNegative_def ValidateIsPositive_def selected_backends_def Let_def
          construct_server_def open_database_def)
  from cert_dir_tree_dir_must_differ [OF a, where e = sample_env] b
  have "main sample_env ?same = (Aborted, [])" by blast
  moreover from cert_dir_tree_dir_must_differ
      [OF c, where e = sample_env and db = "FileDB (''certs'', 0) (''trees'', 0) ([], 0)"] d
  have "FLAGS_cert_dir ?differ \<noteq> FLAGS_tree_dir ?differ" by blast
  then have "''certs'' \<noteq> ''trees''" by simp
  ultimately show ?thesis using d by blast
qed

text \<open>
  C10. \<^verbatim>\<open>ValidatePort\<close> accepts a port exactly when it lies between 1 and 65535, both
  included; with the flag \<^verbatim>\<open>port\<close> outside that range the process ends with exit status
  1 while the flags are parsed, before the server or anything else is constructed.
\<close>

theorem ValidatePort_range:
  "(ValidatePort flagname p \<longleftrightarrow> 1 \<le> sint p \<and> sint p \<le> 65535)
   \<and> (\<not> (1 \<le> sint (FLAGS_port f) \<and> sint (FLAGS_port f) \<le> 65535)
        \<longrightarrow> main e f = (Exited 1, []))"
  by (auto simp: ValidatePort_def main_def ParseCommandLineFlags_def)

theorem ValidatePort_range_witness:
  "ValidatePort ''port'' 9999 \<and> ValidatePort ''port'' 1 \<and> ValidatePort ''port'' 65535
   \<and> \<not> ValidatePort ''port'' 0 \<and> \<not> ValidatePort ''port'' 65536
   \<and> \<not> (1 \<le> sint (FLAGS_port (mirror_flags\<lparr>FLAGS_port := 65536\<rparr>))
         \<and> sint (FLAGS_port (mirror_flags\<lparr>FLAGS_port := 65536\<rparr>)) \<le> 65535)
   \<and> main sample_env (mirror_flags\<lparr>FLAGS_port := 65536\<rparr>) = (Exited 1, [])"
proof -
  have a: "\<not> (1 \<le> sint (FLAGS_port (mirror_flags\<lparr>FLAGS_port := 65536\<rparr>))
         \<and> sint (FLAGS_port (mirror_flags\<lparr>FLAGS_port := 65536\<rparr>)) \<le> 65535)"
    by simp
  from a ValidatePort_range [where f = "mirror_flags\<lparr>FLAGS_port := 65536\<rparr>" and e = sample_env]
  have "main sample_env (mirror_flags\<lparr>FLAGS_port := 65536\<rparr>) = (Exited 1, [])"
    by blast
  moreover have "ValidatePort ''port'' 9999 \<and> ValidatePort ''port'' 1
      \<and> ValidatePort ''port'' 65535 \<and> \<not> ValidatePort ''port'' 0
      \<and> \<not> ValidatePort ''port'' 65536"
    using ValidatePort_range [of "''port''" 9999] ValidatePort_range [of "''port''" 1]
      ValidatePort_range [of "''port''" 65535] ValidatePort_range [of "''port''" 0]
      ValidatePort_range [of "''port''" 65536]
    by simp
  ultimately show ?thesis using a by blast
qed

end
